theory Spec2Isabelle
  imports Complex_Main
begin

section \<open>The Pomodoro timer of \<^verbatim>\<open>src/app/page.tsx\<close>\<close>

text \<open>
  The component \<^verbatim>\<open>PomodoroTimer\<close> keeps nine pieces of React state and changes them
  through event handlers and one interval callback. The embedding is a record of that
  state and one total function per handler. Each state updater is applied once per
  update, and all the updates one handler enqueues are committed together before the
  next event.
\<close>

subsection \<open>Numbers\<close>

text \<open>
  A JavaScript number is a double. Every number the component stores is an integer or
  \<^verbatim>\<open>Infinity\<close>, so a number is an \<open>int\<close> here, and the integer \<open>2^1024\<close>, which is
  not a double, stands for \<^verbatim>\<open>Infinity\<close> (its negation for \<^verbatim>\<open>-Infinity\<close>): the order of
  the integers is then the order of the doubles.

  \<open>roundDouble x\<close> is the double nearest to the integer \<open>x\<close>, a tie going to the even
  significand, and \<^verbatim>\<open>Infinity\<close> once the rounded magnitude reaches \<open>2^1024\<close>. Below
  \<open>2^53\<close> every integer is a double; from there on the doubles around \<open>x\<close> are the
  multiples of \<open>ulp x = 2^expo x\<close>, where \<open>expo x\<close> counts the binary digits of \<open>x\<close>
  beyond 53. \<open>rne u x\<close> rounds \<open>x\<close> to the nearest multiple of \<open>u\<close>, a tie to the even
  quotient.

  The results of \<^verbatim>\<open>Number.parseInt\<close> (line 116), of the product by 60 (line 119) and of
  \<^verbatim>\<open>prev - 1\<close> (line 73) are rounded with \<open>roundDouble\<close>. The credit of lines 64--66
  is computed in exact integers, as the doubles do while the duration and the sum stay
  within \<open>2^53\<close>; on every run from the initial state the duration is at most \<open>2^53\<close>
  whenever a countdown ends (\<open>terminal_tick_exact\<close> below).
\<close>

function expo :: "int \<Rightarrow> nat" where
  "expo x = (if x < 2 ^ 53 then 0 else Suc (expo (x div 2)))"
  by pat_completeness auto
termination
  by (relation "measure nat") auto

definition ulp :: "int \<Rightarrow> int" where
  "ulp x = 2 ^ expo x"

definition rne :: "int \<Rightarrow> int \<Rightarrow> int" where
  "rne u x =
     (let q = x div u; r = x mod u
      in if 2 * r < u \<or> (2 * r = u \<and> even q) then q * u else (q + 1) * u)"

definition Infinity :: int where
  "Infinity = 2 ^ 1024"

definition roundPos :: "int \<Rightarrow> int" where
  "roundPos x = min Infinity (rne (ulp x) x)"

definition roundDouble :: "int \<Rightarrow> int" where
  "roundDouble x = (if x < 0 then - roundPos (- x) else roundPos x)"

subsection \<open>Data model (lines 5--44)\<close>

datatype TimerMode = Focus | ShortBreak | LongBreak

text \<open>\<^verbatim>\<open>Record<TimerMode, number>\<close>: an object with exactly the three keys.\<close>

record Durations =
  focus :: int
  short_break :: int
  long_break :: int

text \<open>Property read \<^verbatim>\<open>d[m]\<close> and the spread update \<^verbatim>\<open>{...d, [m]: v}\<close>.\<close>

fun lookup :: "Durations \<Rightarrow> TimerMode \<Rightarrow> int" where
  "lookup d Focus = focus d"
| "lookup d ShortBreak = short_break d"
| "lookup d LongBreak = long_break d"

fun assign :: "Durations \<Rightarrow> TimerMode \<Rightarrow> int \<Rightarrow> Durations" where
  "assign d Focus v = d\<lparr>focus := v\<rparr>"
| "assign d ShortBreak v = d\<lparr>short_break := v\<rparr>"
| "assign d LongBreak v = d\<lparr>long_break := v\<rparr>"

record DailyTask =
  id_task :: string
  name :: string
  targetMinutes :: int
  completedMinutes :: int

definition DEFAULT_DURATIONS :: Durations where
  "DEFAULT_DURATIONS = \<lparr>focus = 25 * 60, short_break = 5 * 60, long_break = 15 * 60\<rparr>"

definition DEFAULT_TASKS :: "DailyTask list" where
  "DEFAULT_TASKS =
     [\<lparr>id_task = ''learning'', name = ''Learning'', targetMinutes = 240, completedMinutes = 0\<rparr>,
      \<lparr>id_task = ''coding'', name = ''Python Coding / DSA'', targetMinutes = 180,
        completedMinutes = 0\<rparr>,
      \<lparr>id_task = ''aptitude'', name = ''Aptitude'', targetMinutes = 60, completedMinutes = 0\<rparr>]"

record state =
  durations :: Durations
  showSettings :: bool
  tempDurations :: Durations
  mode :: TimerMode
  timeLeft :: int
  isRunning :: bool
  isComplete :: bool
  dailyTasks :: "DailyTask list"
  selectedTaskId :: string

text \<open>The initial values of the \<^verbatim>\<open>useState\<close> calls, lines 32--44.\<close>

definition initial_state :: state where
  "initial_state =
     \<lparr>durations = DEFAULT_DURATIONS, showSettings = False, tempDurations = DEFAULT_DURATIONS,
      mode = Focus, timeLeft = focus DEFAULT_DURATIONS, isRunning = False, isComplete = False,
      dailyTasks = DEFAULT_TASKS, selectedTaskId = ''learning''\<rparr>"

subsection \<open>The interval callback (lines 50--79)\<close>

text \<open>The callback given to \<^verbatim>\<open>prevTasks.map\<close>, lines 60--69.\<close>

definition creditTask :: "string \<Rightarrow> int \<Rightarrow> DailyTask \<Rightarrow> DailyTask" where
  "creditTask sel secs task =
     (if id_task task = sel
      then task\<lparr>completedMinutes := completedMinutes task + secs div 60\<rparr>
      else task)"

text \<open>
  The updater given to \<^verbatim>\<open>setTimeLeft\<close>, lines 55--74, with the three updates it
  enqueues on the other state variables.
\<close>

definition tickUpdater :: "state \<Rightarrow> state" where
  "tickUpdater s =
     (if timeLeft s \<le> 1
      then s\<lparr>isRunning := False, isComplete := True,
             dailyTasks := map (creditTask (selectedTaskId s) (lookup (durations s) (mode s)))
                               (dailyTasks s),
             timeLeft := 0\<rparr>
      else s\<lparr>timeLeft := roundDouble (timeLeft s - 1)\<rparr>)"

text \<open>
  The effect arms the interval only under the test of line 53, and its cleanup clears the
  interval on every change of a dependency: one firing of the interval is one \<open>tick\<close>.
\<close>

definition tick :: "state \<Rightarrow> state" where
  "tick s = (if isRunning s \<and> timeLeft s > 0 then tickUpdater s else s)"

subsection \<open>Event handlers (lines 81--125)\<close>

definition handleModeChange :: "TimerMode \<Rightarrow> state \<Rightarrow> state" where
  "handleModeChange newMode s =
     s\<lparr>mode := newMode, timeLeft := lookup (durations s) newMode,
       isRunning := False, isComplete := False\<rparr>"

definition handleStart :: "state \<Rightarrow> state" where
  "handleStart s = s\<lparr>isRunning := True, isComplete := False\<rparr>"

definition handlePause :: "state \<Rightarrow> state" where
  "handlePause s = s\<lparr>isRunning := False\<rparr>"

definition handleReset :: "state \<Rightarrow> state" where
  "handleReset s =
     s\<lparr>timeLeft := lookup (durations s) (mode s), isRunning := False, isComplete := False\<rparr>"

definition handleSaveDurations :: "state \<Rightarrow> state" where
  "handleSaveDurations s =
     s\<lparr>durations := tempDurations s, showSettings := False,
       timeLeft := lookup (tempDurations s) (mode s),
       isRunning := False, isComplete := False\<rparr>"

definition handleResetDurations :: "state \<Rightarrow> state" where
  "handleResetDurations s = s\<lparr>tempDurations := DEFAULT_DURATIONS\<rparr>"

subsubsection \<open>\<^verbatim>\<open>Number.parseInt\<close> with no radix\<close>

text \<open>
  A JavaScript string is a sequence of 16-bit code units, here a list of natural
  numbers; \<open>js\<close> gives the code units of an ASCII literal.

  The library function follows its definition in the language standard: leading white
  space is dropped, then an optional sign, then an optional \<^verbatim>\<open>0x\<close> or \<^verbatim>\<open>0X\<close>
  (which selects radix 16, otherwise 10); the longest prefix of digits of the radix is read,
  and there is no number (\<^verbatim>\<open>NaN\<close>, here \<open>None\<close>) when that prefix is empty. The result
  is the double nearest to the integer the digits denote, with the sign. (The standard
  lets an implementation replace decimal digits after the twentieth by zeros before it
  rounds; the model rounds the exact integer.) The white space is that of the standard:
  the characters 9 to 13, the space, the no-break space 160, the Unicode space
  separators, the line and paragraph separators and the byte order mark.
\<close>

type_synonym js_string = "nat list"

definition js :: "string \<Rightarrow> js_string" where
  "js cs = map of_char cs"

definition isWhiteSpace :: "nat \<Rightarrow> bool" where
  "isWhiteSpace c =
     (c \<in> {9, 10, 11, 12, 13, 32, 160, 5760, 8232, 8233, 8239, 8287, 12288, 65279} \<or>
      (8192 \<le> c \<and> c \<le> 8202))"

definition digitValue :: "nat \<Rightarrow> int option" where
  "digitValue n =
     (if 48 \<le> n \<and> n \<le> 57 then Some (int n - 48)
      else if 97 \<le> n \<and> n \<le> 122 then Some (int n - 87)
      else if 65 \<le> n \<and> n \<le> 90 then Some (int n - 55)
      else None)"

definition isRadixDigit :: "int \<Rightarrow> nat \<Rightarrow> bool" where
  "isRadixDigit R c = (case digitValue c of None \<Rightarrow> False | Some d \<Rightarrow> d < R)"

definition radixValue :: "int \<Rightarrow> js_string \<Rightarrow> int" where
  "radixValue R Z =
     foldl (\<lambda>acc c. acc * R + (case digitValue c of None \<Rightarrow> 0 | Some d \<Rightarrow> d)) 0 Z"

definition parseInt :: "js_string \<Rightarrow> int option" where
  "parseInt v =
     (let S = dropWhile isWhiteSpace v;
          sign = (if S \<noteq> [] \<and> hd S = of_char CHR ''-'' then - 1 else 1 :: int);
          S1 = (if S \<noteq> [] \<and> (hd S = of_char CHR ''+'' \<or> hd S = of_char CHR ''-'')
                then tl S else S);
          hex = (take 2 S1 = js ''0x'' \<or> take 2 S1 = js ''0X'');
          R = (if hex then 16 else 10);
          S2 = (if hex then drop 2 S1 else S1);
          Z = takeWhile (isRadixDigit R) S2
      in if Z = [] then None else Some (sign * roundDouble (radixValue R Z)))"

text \<open>Line 116, \<^verbatim>\<open>Number.parseInt(value) || 0\<close>: \<^verbatim>\<open>NaN\<close> and zero are falsy.\<close>

definition parsedMinutes :: "js_string \<Rightarrow> int" where
  "parsedMinutes v = (case parseInt v of None \<Rightarrow> 0 | Some n \<Rightarrow> if n = 0 then 0 else n)"

definition handleDurationChange :: "TimerMode \<Rightarrow> js_string \<Rightarrow> state \<Rightarrow> state" where
  "handleDurationChange m v s =
     (let minutes = parsedMinutes v
      in s\<lparr>tempDurations := assign (tempDurations s) m (roundDouble (max 1 minutes * 60))\<rparr>)"

definition handleResetDailyTasks :: "state \<Rightarrow> state" where
  "handleResetDailyTasks s = s\<lparr>dailyTasks := DEFAULT_TASKS\<rparr>"

text \<open>The inline handlers of the task buttons (line 322) and the settings button (lines 362--365).\<close>

definition selectTask :: "string \<Rightarrow> state \<Rightarrow> state" where
  "selectTask i s = s\<lparr>selectedTaskId := i\<rparr>"

definition toggleSettings :: "state \<Rightarrow> state" where
  "toggleSettings s = s\<lparr>showSettings := \<not> showSettings s, tempDurations := durations s\<rparr>"

subsection \<open>Rendering: the effect of lines 46--48\<close>

text \<open>
  After a render in which \<^verbatim>\<open>durations\<close> or \<^verbatim>\<open>mode\<close> changed, the first effect
  sets the time left to the duration of the mode. React compares the table by identity
  and \<open>commit\<close> by value; the two handlers that change a dependency have already set
  the time left to the value the effect sets (\<open>syncTimeLeft_handleModeChange\<close>,
  \<open>syncTimeLeft_handleSaveDurations\<close>), so the effect changes nothing either way.
\<close>

definition syncTimeLeft :: "state \<Rightarrow> state" where
  "syncTimeLeft s = s\<lparr>timeLeft := lookup (durations s) (mode s)\<rparr>"

definition commit :: "state \<Rightarrow> state \<Rightarrow> state" where
  "commit old new =
     (if durations new \<noteq> durations old \<or> mode new \<noteq> mode old then syncTimeLeft new else new)"

subsection \<open>Events and runs\<close>

datatype event =
    Tick
  | Start
  | Pause
  | Reset
  | SelectMode TimerMode
  | Save
  | ResetDurations
  | EditDuration TimerMode js_string
  | ToggleSettings
  | SelectTask string
  | ResetTasks

fun handler :: "event \<Rightarrow> state \<Rightarrow> state" where
  "handler Tick = tick"
| "handler Start = handleStart"
| "handler Pause = handlePause"
| "handler Reset = handleReset"
| "handler (SelectMode m) = handleModeChange m"
| "handler Save = handleSaveDurations"
| "handler ResetDurations = handleResetDurations"
| "handler (EditDuration m v) = handleDurationChange m v"
| "handler ToggleSettings = toggleSettings"
| "handler (SelectTask i) = selectTask i"
| "handler ResetTasks = handleResetDailyTasks"

definition step :: "event \<Rightarrow> state \<Rightarrow> state" where
  "step e s = commit s (handler e s)"

fun exec :: "event list \<Rightarrow> state \<Rightarrow> state" where
  "exec [] s = s"
| "exec (e # es) s = exec es (step e s)"

subsection \<open>What the page lets the user do\<close>

text \<open>
  The Start button is disabled while running and the Pause button while not running
  (lines 284, 291); the settings controls exist only while the panel is shown (line 372);
  a task button exists for each task of the ledger (lines 312--322). The handlers above are
  total, and \<open>enabled\<close> records which events the rendered page can deliver.
\<close>

fun enabled :: "event \<Rightarrow> state \<Rightarrow> bool" where
  "enabled Start s = (\<not> isRunning s)"
| "enabled Pause s = isRunning s"
| "enabled Save s = showSettings s"
| "enabled ResetDurations s = showSettings s"
| "enabled (EditDuration m v) s = showSettings s"
| "enabled (SelectTask i) s = (i \<in> set (map id_task (dailyTasks s)))"
| "enabled e s = True"

fun feasible :: "event list \<Rightarrow> state \<Rightarrow> bool" where
  "feasible [] s = True"
| "feasible (e # es) s = (enabled e s \<and> feasible es (step e s))"

subsection \<open>Predicates of the specification\<close>

text \<open>
  \<open>all_modes\<close> is the array literal of lines 198 and 378. A duration is a whole
  number of minutes when it is a positive multiple of 60. A table is well formed when
  each entry is a double, at least 60, and a whole number of minutes if it is below
  \<open>2^53\<close>. A duration sticks when, above \<open>2^53\<close>, taking one off rounds back to it.
  \<open>terminalTick\<close> holds when
  the event is a tick that takes the branch of lines 57--71, and \<open>credits\<close> counts
  these along a run; an event reloads the timer when its handler assigns the time left
  from a duration table.
\<close>

definition all_modes :: "TimerMode list" where
  "all_modes = [Focus, ShortBreak, LongBreak]"

definition whole_minutes :: "int \<Rightarrow> bool" where
  "whole_minutes d = (60 \<le> d \<and> d mod 60 = 0)"

definition entry_ok :: "int \<Rightarrow> bool" where
  "entry_ok d = (60 \<le> d \<and> roundDouble d = d \<and> (d < 2 ^ 53 \<longrightarrow> whole_minutes d))"

definition table_ok :: "Durations \<Rightarrow> bool" where
  "table_ok d = list_all (\<lambda>m. entry_ok (lookup d m)) all_modes"

definition sticks :: "int \<Rightarrow> bool" where
  "sticks d = (2 ^ 53 < d \<longrightarrow> roundDouble (d - 1) = d)"

definition sticky_inv :: "state \<Rightarrow> bool" where
  "sticky_inv s =
     (list_all (\<lambda>m. sticks (lookup (durations s) m) \<and> sticks (lookup (tempDurations s) m))
        all_modes \<and>
      (2 ^ 53 < lookup (durations s) (mode s) \<longrightarrow> timeLeft s = lookup (durations s) (mode s)))"

definition tables_ok :: "state \<Rightarrow> bool" where
  "tables_ok s = (table_ok (durations s) \<and> table_ok (tempDurations s))"

definition timer_inv :: "state \<Rightarrow> bool" where
  "timer_inv s =
     (0 \<le> timeLeft s \<and> timeLeft s \<le> lookup (durations s) (mode s) \<and>
      \<not> (isRunning s \<and> isComplete s))"

definition terminalTick :: "event \<Rightarrow> state \<Rightarrow> bool" where
  "terminalTick e s = (e = Tick \<and> isRunning s \<and> 0 < timeLeft s \<and> timeLeft s \<le> 1)"

fun credits :: "event list \<Rightarrow> state \<Rightarrow> nat" where
  "credits [] s = 0"
| "credits (e # es) s = (if terminalTick e s then 1 else 0) + credits es (step e s)"

fun isReload :: "event \<Rightarrow> bool" where
  "isReload Reset = True"
| "isReload (SelectMode m) = True"
| "isReload Save = True"
| "isReload e = False"

subsection \<open>Runs from the initial state\<close>

text \<open>
  A whole focus session of the default 25 minutes, and the states one second before the
  end of a focus session and of a short break. Two runs through the settings panel: one
  saves 150119987579017 minutes and one 600479950316067 minutes as the focus duration.
\<close>

definition focus_run :: "event list" where
  "focus_run = Start # replicate 1500 Tick"

definition last_second :: state where
  "last_second = exec (Start # replicate 1499 Tick) initial_state"


definition long_focus_run :: "event list" where
  "long_focus_run = [ToggleSettings, EditDuration Focus (js ''150119987579017''), Save]"

definition long_focus_start :: state where
  "long_focus_start = step Start (step (SelectMode Focus) (exec long_focus_run initial_state))"


section \<open>Rounding to a double\<close>

declare expo.simps [simp del]

lemma expo_small: "x < 2 ^ 53 \<Longrightarrow> expo x = 0"
  by (simp add: expo.simps)

lemma expo_big: "2 ^ 53 \<le> x \<Longrightarrow> expo x = Suc (expo (x div 2))"
  by (subst expo.simps) simp

lemma expo_le_iff: "expo x \<le> k \<longleftrightarrow> x < 2 ^ 53 * 2 ^ k"
proof (induction x arbitrary: k rule: expo.induct)
  case (1 x)
  show ?case
  proof (cases "x < 2 ^ 53")
    case True
    have "(1::int) \<le> 2 ^ k"
      by simp
    then have "(2::int) ^ 53 * 1 \<le> 2 ^ 53 * 2 ^ k"
      by (intro mult_left_mono) simp_all
    with True have "x < 2 ^ 53 * 2 ^ k"
      by linarith
    with True show ?thesis
      by (simp add: expo_small)
  next
    case False
    show ?thesis
    proof (cases k)
      case 0
      with False show ?thesis
        by (simp add: expo_big)
    next
      case (Suc j)
      define a :: int where "a = 2 ^ 53 * 2 ^ j"
      have e: "(2::int) ^ 53 * 2 ^ Suc j = 2 * a"
        by (simp add: a_def)
      from False have "expo (x div 2) \<le> j \<longleftrightarrow> x div 2 < a"
        unfolding a_def by (intro "1.IH") simp
      moreover have "x div 2 < a \<longleftrightarrow> x < 2 * a"
        by arith
      ultimately show ?thesis
        using False unfolding Suc e by (simp add: expo_big)
    qed
  qed
qed

lemma expo_upper: "x < 2 ^ 53 * 2 ^ expo x"
  using expo_le_iff [of x "expo x"] by simp

lemma expo_lower:
  assumes "0 < expo x"
  shows "2 ^ 52 * 2 ^ expo x \<le> x"
proof -
  from assms obtain j where j: "expo x = Suc j"
    by (cases "expo x") simp_all
  then have "\<not> expo x \<le> j"
    by simp
  then have "\<not> x < 2 ^ 53 * 2 ^ j"
    using expo_le_iff by blast
  moreover have "(2::int) ^ 52 * 2 ^ Suc j = 2 ^ 53 * 2 ^ j"
    by simp
  ultimately show ?thesis
    unfolding j by linarith
qed

lemma expo_mono:
  assumes "x \<le> y"
  shows "expo x \<le> expo y"
proof -
  from assms expo_upper [of y] have "x < 2 ^ 53 * 2 ^ expo y"
    by linarith
  then show ?thesis
    by (simp only: expo_le_iff)
qed

lemma ulp_pos: "0 < ulp x"
  by (simp add: ulp_def)

lemma ulp_dvd_bounds: "ulp x dvd 2 ^ 53 * 2 ^ expo x" "ulp x dvd 2 ^ 52 * 2 ^ expo x"
  by (simp_all add: ulp_def)

lemma rne_dvd: "0 < u \<Longrightarrow> u dvd x \<Longrightarrow> rne u x = x"
  by (auto simp: rne_def Let_def)

lemma rne_multiple: "u dvd rne u x"
  by (simp add: rne_def Let_def)

lemma rne_mono:
  assumes "0 < u" and "x \<le> y"
  shows "rne u x \<le> rne u y"
proof -
  define qx rx qy ry where "qx = x div u" and "rx = x mod u" and "qy = y div u" and "ry = y mod u"
  have x: "x = qx * u + rx" and y: "y = qy * u + ry"
    by (simp_all add: qx_def rx_def qy_def ry_def)
  have rx: "0 \<le> rx" "rx < u" and ry: "0 \<le> ry" "ry < u"
    using assms(1) by (simp_all add: rx_def ry_def)
  have lo: "qx * u \<le> rne u x" "rne u x \<le> (qx + 1) * u"
    and hi: "qy * u \<le> rne u y"
    using assms(1) by (auto simp: rne_def Let_def qx_def qy_def distrib_right)
  have "qx \<le> qy"
    unfolding qx_def qy_def using assms by (intro zdiv_mono1)
  then consider "qx + 1 \<le> qy" | "qx = qy"
    by linarith
  then show ?thesis
  proof cases
    case 1
    then have "(qx + 1) * u \<le> qy * u"
      using assms(1) by (intro mult_right_mono) simp_all
    with lo hi show ?thesis
      by linarith
  next
    case 2
    with x y assms(2) have "rx \<le> ry"
      by simp
    with 2 show ?thesis
      unfolding rne_def Let_def qx_def [symmetric] rx_def [symmetric]
        qy_def [symmetric] ry_def [symmetric]
      using assms(1) by (auto simp: distrib_right)
  qed
qed

lemma rne_near:
  assumes "0 < u"
  shows "2 * \<bar>rne u x - x\<bar> \<le> u"
proof -
  define q r where "q = x div u" and "r = x mod u"
  have x: "x = q * u + r"
    by (simp add: q_def r_def)
  have "0 \<le> r" "r < u"
    using assms by (simp_all add: r_def)
  then show ?thesis
    unfolding rne_def Let_def q_def [symmetric] r_def [symmetric]
    by (auto simp: x distrib_right)
qed

lemma rne_upper: "rne (ulp x) x \<le> 2 ^ 53 * 2 ^ expo x"
proof -
  have "rne (ulp x) x \<le> rne (ulp x) (2 ^ 53 * 2 ^ expo x)"
    using expo_upper [of x] by (intro rne_mono ulp_pos) simp
  then show ?thesis
    unfolding rne_dvd [OF ulp_pos ulp_dvd_bounds(1)] .
qed

lemma rne_lower:
  assumes "0 < expo x"
  shows "2 ^ 52 * 2 ^ expo x \<le> rne (ulp x) x"
proof -
  have "rne (ulp x) (2 ^ 52 * 2 ^ expo x) \<le> rne (ulp x) x"
    using expo_lower [OF assms] by (intro rne_mono ulp_pos)
  then show ?thesis
    unfolding rne_dvd [OF ulp_pos ulp_dvd_bounds(2)] .
qed

lemma rne_ulp_mono:
  assumes "x \<le> y"
  shows "rne (ulp x) x \<le> rne (ulp y) y"
proof (cases "expo x = expo y")
  case True
  then have "ulp x = ulp y"
    by (simp add: ulp_def)
  with assms show ?thesis
    by (simp add: rne_mono ulp_pos)
next
  case False
  with expo_mono [OF assms] have lt: "Suc (expo x) \<le> expo y"
    by simp
  then have "(2::int) ^ Suc (expo x) \<le> 2 ^ expo y"
    by (intro power_increasing) simp_all
  then have "(2::int) ^ 52 * 2 ^ Suc (expo x) \<le> 2 ^ 52 * 2 ^ expo y"
    by (intro mult_left_mono) simp_all
  moreover have "(2::int) ^ 52 * 2 ^ Suc (expo x) = 2 ^ 53 * 2 ^ expo x"
    by simp
  moreover from lt have "0 < expo y"
    by simp
  then have "2 ^ 52 * 2 ^ expo y \<le> rne (ulp y) y"
    by (rule rne_lower)
  ultimately show ?thesis
    using rne_upper [of x] by linarith
qed

lemma roundPos_mono: "x \<le> y \<Longrightarrow> roundPos x \<le> roundPos y"
  unfolding roundPos_def using rne_ulp_mono [of x y] by (simp add: min_def)

lemma expo_dvd:
  assumes "2 ^ e dvd z" and "z \<le> 2 ^ 53 * 2 ^ e"
  shows "ulp z dvd z"
proof (cases "z < 2 ^ 53 * 2 ^ e")
  case True
  then have "expo z \<le> e"
    by (simp only: expo_le_iff)
  then have "(2::int) ^ expo z dvd 2 ^ e"
    by (rule le_imp_power_dvd)
  from dvd_trans [OF this assms(1)] show ?thesis
    unfolding ulp_def .
next
  case False
  with assms(2) have z: "z = 2 ^ (53 + e)"
    by (simp add: power_add)
  have "z < 2 ^ 53 * 2 ^ Suc e"
    unfolding z by (simp add: power_add)
  then have "expo z \<le> Suc e"
    by (simp only: expo_le_iff)
  then have "expo z \<le> 53 + e"
    by simp
  then show ?thesis
    unfolding ulp_def z by (rule le_imp_power_dvd)
qed

lemma roundPos_fixed:
  assumes "2 ^ e dvd z" and "z \<le> 2 ^ 53 * 2 ^ e" and "z \<le> Infinity"
  shows "roundPos z = z"
proof -
  have "rne (ulp z) z = z"
    using assms(1,2) by (intro rne_dvd ulp_pos expo_dvd)
  with assms(3) show ?thesis
    by (simp add: roundPos_def)
qed

lemma roundPos_Infinity: "roundPos Infinity = Infinity"
proof (rule roundPos_fixed [where e = 971])
  show "2 ^ 971 dvd Infinity"
    unfolding Infinity_def by (rule le_imp_power_dvd) simp
  have "(2::int) ^ 53 * 2 ^ 971 = 2 ^ (53 + 971)"
    by (rule power_add [symmetric])
  then show "Infinity \<le> 2 ^ 53 * 2 ^ 971"
    unfolding Infinity_def by simp
qed simp

lemma roundPos_idem: "roundPos (roundPos x) = roundPos x"
proof (cases "rne (ulp x) x \<le> Infinity")
  case True
  then have "roundPos x = rne (ulp x) x"
    by (simp add: roundPos_def)
  moreover have "roundPos (rne (ulp x) x) = rne (ulp x) x"
  proof (rule roundPos_fixed)
    show "2 ^ expo x dvd rne (ulp x) x"
      using rne_multiple [of "ulp x" x] by (simp add: ulp_def)
  qed (rule rne_upper, rule True)
  ultimately show ?thesis
    by simp
next
  case False
  then have "roundPos x = Infinity"
    by (simp add: roundPos_def)
  then show ?thesis
    by (simp add: roundPos_Infinity)
qed

lemma small_le_Infinity: "x \<le> 2 ^ 53 \<Longrightarrow> x \<le> Infinity"
proof -
  assume "x \<le> 2 ^ 53"
  moreover have "(2::int) ^ 53 \<le> 2 ^ 1024"
    by (rule power_increasing) simp_all
  ultimately show ?thesis
    unfolding Infinity_def by linarith
qed

lemma roundPos_exact: "x \<le> 2 ^ 53 \<Longrightarrow> roundPos x = x"
  by (rule roundPos_fixed [where e = 0]) (simp_all add: small_le_Infinity)

lemma roundPos_nonneg: "0 \<le> x \<Longrightarrow> 0 \<le> roundPos x"
  using roundPos_mono [of 0 x] by (simp add: roundPos_exact)

lemma roundPos_pos: "0 < x \<Longrightarrow> 0 < roundPos x"
  using roundPos_mono [of 1 x] by (simp add: roundPos_exact)

lemma roundDouble_mono:
  assumes "x \<le> y"
  shows "roundDouble x \<le> roundDouble y"
proof -
  consider "0 \<le> x" | "x < 0" "0 \<le> y" | "y < 0"
    by linarith
  then show ?thesis
  proof cases
    case 1
    with assms show ?thesis
      by (simp add: roundDouble_def roundPos_mono)
  next
    case 2
    then have "0 \<le> roundPos (- x)" "0 \<le> roundPos y"
      by (simp_all add: roundPos_nonneg)
    with 2 show ?thesis
      by (simp add: roundDouble_def)
  next
    case 3
    with assms have "roundPos (- y) \<le> roundPos (- x)"
      by (intro roundPos_mono) simp
    with 3 assms show ?thesis
      by (simp add: roundDouble_def)
  qed
qed

lemma roundDouble_exact:
  assumes "- (2 ^ 53) \<le> x" and "x \<le> 2 ^ 53"
  shows "roundDouble x = x"
  using assms by (simp add: roundDouble_def roundPos_exact)

lemma roundDouble_idem: "roundDouble (roundDouble x) = roundDouble x"
proof (cases "x < 0")
  case True
  then have "0 < roundPos (- x)"
    by (intro roundPos_pos) simp
  with True show ?thesis
    by (simp add: roundDouble_def roundPos_idem)
next
  case False
  then have "0 \<le> roundPos x"
    by (intro roundPos_nonneg) simp
  with False show ?thesis
    by (simp add: roundDouble_def roundPos_idem)
qed

lemma roundDouble_near:
  assumes "roundDouble x \<noteq> Infinity" and "roundDouble x \<noteq> - Infinity"
  shows "2 * \<bar>roundDouble x - x\<bar> \<le> ulp \<bar>x\<bar>"
proof (cases "x < 0")
  case True
  with assms(2) have "roundPos (- x) = rne (ulp (- x)) (- x)"
    by (auto simp: roundDouble_def roundPos_def min_def)
  with True rne_near [OF ulp_pos, of "- x" "- x"] show ?thesis
    by (simp add: roundDouble_def abs_if split: if_splits)
next
  case False
  with assms(1) have "roundPos x = rne (ulp x) x"
    by (auto simp: roundDouble_def roundPos_def min_def)
  with False rne_near [OF ulp_pos, of x x] show ?thesis
    by (simp add: roundDouble_def abs_if split: if_splits)
qed

lemma roundDouble_examples:
  "roundDouble 36028797018964020 = 36028797018964016"
  "roundDouble 9007199254741019 = 9007199254741020"
  "roundDouble 9007199254740993 = 9007199254740992"
  by (simp_all add: roundDouble_def roundPos_def Infinity_def ulp_def rne_def expo_big expo_small
      Let_def)

lemma roundDouble_small: "0 \<le> x \<Longrightarrow> x \<le> 2 ^ 53 \<Longrightarrow> roundDouble x = x"
  by (rule roundDouble_exact) simp_all

lemma roundDouble_ge:
  assumes "c \<le> x" and "0 \<le> c" and "c \<le> 2 ^ 53"
  shows "c \<le> roundDouble x"
  using roundDouble_mono [OF assms(1)] roundDouble_small [OF assms(2,3)] by simp

section \<open>Basic facts\<close>

lemmas handler_defs =
  tick_def tickUpdater_def handleModeChange_def handleStart_def handlePause_def
  handleReset_def handleSaveDurations_def handleResetDurations_def handleDurationChange_def
  handleResetDailyTasks_def selectTask_def toggleSettings_def

lemma step_handler: "step e s = handler e s"
  by (cases e) (simp_all add: step_def commit_def syncTimeLeft_def handler_defs)

lemma syncTimeLeft_handleModeChange: "syncTimeLeft (handleModeChange m s) = handleModeChange m s"
  by (simp add: syncTimeLeft_def handleModeChange_def)

lemma syncTimeLeft_handleSaveDurations: "syncTimeLeft (handleSaveDurations s) = handleSaveDurations s"
  by (simp add: syncTimeLeft_def handleSaveDurations_def)

lemma exec_append: "exec (xs @ ys) s = exec ys (exec xs s)"
  by (induction xs arbitrary: s) simp_all

lemma exec_replicate_Tick: "exec (replicate n Tick) s = (tick ^^ n) s"
  by (induction n arbitrary: s) (simp_all add: step_handler funpow_swap1)

lemma tick_counting:
  assumes "isRunning s" and "1 < timeLeft s" and "timeLeft s \<le> 2 ^ 53"
  shows "tick s = s\<lparr>timeLeft := timeLeft s - 1\<rparr>"
proof -
  from assms(2,3) have "roundDouble (timeLeft s - 1) = timeLeft s - 1"
    by (intro roundDouble_small) simp_all
  with assms(1,2) show ?thesis
    by (simp add: tick_def tickUpdater_def)
qed

lemma tick_pow_running:
  "isRunning s \<Longrightarrow> timeLeft s = int n + k \<Longrightarrow> 1 \<le> k \<Longrightarrow> timeLeft s \<le> 2 ^ 53 \<Longrightarrow>
   (tick ^^ n) s = s\<lparr>timeLeft := k\<rparr>"
proof (induction n arbitrary: s)
  case 0
  then show ?case by simp
next
  case (Suc n)
  let ?t = "s\<lparr>timeLeft := timeLeft s - 1\<rparr>"
  from Suc.prems have t: "tick s = ?t"
    by (intro tick_counting) simp_all
  from Suc.prems have "(tick ^^ n) ?t = ?t\<lparr>timeLeft := k\<rparr>"
    by (intro Suc.IH) simp_all
  with t show ?case
    by (simp add: funpow_swap1)
qed

lemma tick_terminal:
  "isRunning s \<Longrightarrow> timeLeft s = 1 \<Longrightarrow>
   tick s = s\<lparr>isRunning := False, isComplete := True,
              dailyTasks := map (creditTask (selectedTaskId s) (lookup (durations s) (mode s)))
                                (dailyTasks s),
              timeLeft := 0\<rparr>"
  by (simp add: tick_def tickUpdater_def)

lemma countdown_full:
  assumes "isRunning s" and "timeLeft s = int (Suc n)" and "timeLeft s \<le> 2 ^ 53"
  shows "(tick ^^ Suc n) s =
         s\<lparr>isRunning := False, isComplete := True,
           dailyTasks := map (creditTask (selectedTaskId s) (lookup (durations s) (mode s)))
                             (dailyTasks s),
           timeLeft := 0\<rparr>"
proof -
  from assms have "(tick ^^ n) s = s\<lparr>timeLeft := 1\<rparr>"
    by (intro tick_pow_running) simp_all
  then have "(tick ^^ Suc n) s = tick (s\<lparr>timeLeft := 1\<rparr>)"
    by simp
  also have "\<dots> = s\<lparr>isRunning := False, isComplete := True,
           dailyTasks := map (creditTask (selectedTaskId s) (lookup (durations s) (mode s)))
                             (dailyTasks s),
           timeLeft := 0\<rparr>"
    using assms(1) by (simp add: tick_terminal)
  finally show ?thesis .
qed

lemma tick_stopped:
  assumes "\<not> (isRunning s \<and> 0 < timeLeft s)"
  shows "(tick ^^ n) s = s"
proof -
  from assms have "tick s = s"
    by (auto simp: tick_def)
  then show ?thesis
    by (induction n) simp_all
qed

lemma exec_stuck:
  assumes "step Tick s = s"
  shows "exec (replicate n Tick) s = s"
  using assms by (induction n) simp_all


lemma exec_countdown:
  assumes "isRunning s" and "timeLeft s = int n" and "1 \<le> n" and "timeLeft s \<le> 2 ^ 53"
  shows "exec (replicate n Tick) s =
         s\<lparr>isRunning := False, isComplete := True,
           dailyTasks := map (creditTask (selectedTaskId s) (lookup (durations s) (mode s)))
                             (dailyTasks s),
           timeLeft := 0\<rparr>"
proof -
  from assms(3) obtain k where k: "n = Suc k"
    by (cases n) simp_all
  from assms(1,2,4) show ?thesis
    unfolding k exec_replicate_Tick by (rule countdown_full)
qed

lemma exec_counting:
  assumes "isRunning s" and "timeLeft s = int n + k" and "1 \<le> k" and "timeLeft s \<le> 2 ^ 53"
  shows "exec (replicate n Tick) s = s\<lparr>timeLeft := k\<rparr>"
  using assms unfolding exec_replicate_Tick by (rule tick_pow_running)

lemma start_after_select:
  "step Start (step (SelectMode m) s) =
   s\<lparr>mode := m, timeLeft := lookup (durations s) m, isRunning := True, isComplete := False\<rparr>"
  by (simp add: step_handler handleStart_def handleModeChange_def)

lemma initial_fields:
  "durations initial_state = DEFAULT_DURATIONS" "mode initial_state = Focus"
  "timeLeft initial_state = 1500" "\<not> isRunning initial_state" "\<not> isComplete initial_state"
  "dailyTasks initial_state = DEFAULT_TASKS" "selectedTaskId initial_state = ''learning''"
  "tempDurations initial_state = DEFAULT_DURATIONS" "\<not> showSettings initial_state"
  by (simp_all add: initial_state_def DEFAULT_DURATIONS_def)

lemma default_lookup:
  "focus DEFAULT_DURATIONS = 1500" "short_break DEFAULT_DURATIONS = 300"
  "long_break DEFAULT_DURATIONS = 900"
  by (simp_all add: DEFAULT_DURATIONS_def)

lemma parseInt_examples:
  "parseInt (js ''-5'') = Some (- 5)" "parseInt (js ''abc'') = None"
  "parseInt (js ''45'') = Some 45"
  "parseInt (js ''150119987579017'') = Some 150119987579017"
  "parseInt (js ''600479950316067'') = Some 600479950316067"
  by (simp_all add: parseInt_def js_def isWhiteSpace_def isRadixDigit_def digitValue_def
      radixValue_def Let_def roundDouble_small)

lemma parsedMinutes_examples:
  "parsedMinutes (js ''-5'') = - 5" "parsedMinutes (js ''abc'') = 0"
  "parsedMinutes (js ''45'') = 45"
  "parsedMinutes (js ''150119987579017'') = 150119987579017"
  "parsedMinutes (js ''600479950316067'') = 600479950316067"
  by (simp_all add: parsedMinutes_def parseInt_examples)

lemma roundDouble_stored:
  "roundDouble 9007199254741020 = 9007199254741020"
  by (simp add: roundDouble_def roundPos_def Infinity_def ulp_def rne_def expo_big expo_small
      Let_def)

lemma step_EditDuration:
  "step (EditDuration m v) s =
   s\<lparr>tempDurations := assign (tempDurations s) m (roundDouble (max 1 (parsedMinutes v) * 60))\<rparr>"
  by (simp add: step_handler handleDurationChange_def)

lemma long_focus_run_eq:
  "exec long_focus_run initial_state =
   initial_state\<lparr>durations := DEFAULT_DURATIONS\<lparr>focus := 9007199254741020\<rparr>,
     tempDurations := DEFAULT_DURATIONS\<lparr>focus := 9007199254741020\<rparr>,
     timeLeft := 9007199254741020\<rparr>"
  by (simp add: long_focus_run_def step_EditDuration parsedMinutes_examples roundDouble_stored)
     (simp add: step_handler toggleSettings_def handleSaveDurations_def initial_fields)

section \<open>Countdown\<close>

lemma long_focus_start_eq:
  "long_focus_start =
   initial_state\<lparr>durations := DEFAULT_DURATIONS\<lparr>focus := 9007199254741020\<rparr>,
     tempDurations := DEFAULT_DURATIONS\<lparr>focus := 9007199254741020\<rparr>,
     timeLeft := 9007199254741020, isRunning := True\<rparr>"
  unfolding long_focus_start_def long_focus_run_eq start_after_select
  by (simp add: initial_state_def)

lemma long_focus_start_stuck: "step Tick long_focus_start = long_focus_start"
proof -
  have "roundDouble (timeLeft long_focus_start - 1) = timeLeft long_focus_start"
    by (simp add: long_focus_start_eq roundDouble_examples)
  moreover have "isRunning long_focus_start" "\<not> timeLeft long_focus_start \<le> 1"
    "0 < timeLeft long_focus_start"
    by (simp_all add: long_focus_start_eq)
  ultimately show ?thesis
    by (simp add: step_handler tick_def tickUpdater_def)
qed

lemma feasible_long_focus_run: "feasible long_focus_run initial_state"
  by (simp add: long_focus_run_def step_handler toggleSettings_def handleDurationChange_def
      initial_fields)

text \<open>
  Claim C3 says that for every active duration \<open>D \<ge> 1\<close> each of the first \<open>D - 1\<close>
  ticks takes one second off and the \<open>D\<close>-th tick completes the countdown. Saving
  150119987579017 minutes in the settings panel gives the focus duration
  \<open>D = 9007199254741020\<close>, above \<open>2^53\<close>; after selecting focus and starting, the first
  tick leaves the time left at \<open>D\<close>, not \<open>D - 1\<close>, and after \<open>D\<close> ticks the timer is
  still running with \<open>D\<close> seconds left and not complete.
\<close>

theorem countdown_exactness_counterexample:
  "feasible long_focus_run initial_state \<and>
   lookup (durations (exec long_focus_run initial_state)) Focus = 9007199254741020 \<and>
   long_focus_start = step Start (step (SelectMode Focus) (exec long_focus_run initial_state)) \<and>
   timeLeft long_focus_start = 9007199254741020 \<and>
   timeLeft (exec (replicate 1 Tick) long_focus_start) = 9007199254741020 \<and>
   timeLeft (exec (replicate 9007199254741020 Tick) long_focus_start) = 9007199254741020 \<and>
   isRunning (exec (replicate 9007199254741020 Tick) long_focus_start) \<and>
   \<not> isComplete (exec (replicate 9007199254741020 Tick) long_focus_start)"
proof -
  have stuck: "exec (replicate n Tick) long_focus_start = long_focus_start" for n
    using long_focus_start_stuck by (rule exec_stuck)
  have "lookup (durations (exec long_focus_run initial_state)) Focus = 9007199254741020"
    by (simp add: long_focus_run_eq)
  moreover have "timeLeft long_focus_start = 9007199254741020" "isRunning long_focus_start"
    "\<not> isComplete long_focus_start"
    by (simp_all add: long_focus_start_eq initial_fields)
  ultimately show ?thesis
    unfolding stuck using feasible_long_focus_run long_focus_start_def by blast
qed

text \<open>
  Claim C3, amended (countdown exactness up to \<open>2^53\<close>). Let \<open>D\<close> be the active
  duration of mode \<open>m\<close> with \<open>1 \<le> D \<le> 2^53\<close>. After selecting \<open>m\<close> and starting, the
  time left is \<open>D\<close>; after each of the first \<open>k < D\<close> ticks it is \<open>D - k\<close> (so every one of
  the first \<open>D - 1\<close> ticks takes exactly one second off), the timer is still running and
  not complete; after the \<open>D\<close>-th tick the time left is 0, the timer is stopped and
  complete.
\<close>

theorem countdown_exactness:
  assumes "lookup (durations s) m = D" and "1 \<le> D" and "D \<le> 2 ^ 53"
  shows "let s0 = step Start (step (SelectMode m) s) in
           timeLeft s0 = D \<and> isRunning s0 \<and> \<not> isComplete s0 \<and>
           (\<forall>k < nat D. let a = exec (replicate k Tick) s0 in
              timeLeft a = D - int k \<and> isRunning a \<and> \<not> isComplete a) \<and>
           (let z = exec (replicate (nat D) Tick) s0 in
              timeLeft z = 0 \<and> \<not> isRunning z \<and> isComplete z)"
proof -
  define s0 where "s0 = step Start (step (SelectMode m) s)"
  have s0: "timeLeft s0 = D" "isRunning s0" "\<not> isComplete s0"
    using assms(1) by (simp_all add: s0_def start_after_select)
  have bound: "timeLeft s0 \<le> 2 ^ 53"
    unfolding s0(1) by (rule assms(3))
  have before: "timeLeft a = D - int k \<and> isRunning a \<and> \<not> isComplete a"
    if "k < nat D" and "a = exec (replicate k Tick) s0" for k a
  proof -
    from that(1) have "timeLeft s0 = int k + (D - int k)" "1 \<le> D - int k"
      using s0(1) by simp_all
    with s0(2) bound have "exec (replicate k Tick) s0 = s0\<lparr>timeLeft := D - int k\<rparr>"
      by (intro exec_counting)
    with that(2) s0 show ?thesis
      by simp
  qed
  have "timeLeft s0 = int (nat D)" "1 \<le> nat D"
    using s0(1) assms(2) by simp_all
  with s0(2) bound have "exec (replicate (nat D) Tick) s0 =
      s0\<lparr>isRunning := False, isComplete := True,
         dailyTasks := map (creditTask (selectedTaskId s0) (lookup (durations s0) (mode s0)))
                           (dailyTasks s0),
         timeLeft := 0\<rparr>"
    by (intro exec_countdown)
  then have after: "timeLeft z = 0 \<and> \<not> isRunning z \<and> isComplete z"
    if "z = exec (replicate (nat D) Tick) s0" for z
    using that by simp
  from s0 before after show ?thesis
    unfolding s0_def [symmetric] Let_def by blast
qed

theorem countdown_exactness_witness:
  "lookup (durations initial_state) ShortBreak = 300 \<and> (1::int) \<le> 300 \<and> (300::int) \<le> 2 ^ 53 \<and>
   timeLeft (exec (replicate 299 Tick) (step Start (step (SelectMode ShortBreak) initial_state))) = 1 \<and>
   isRunning (exec (replicate 299 Tick) (step Start (step (SelectMode ShortBreak) initial_state))) \<and>
   isComplete (exec (replicate 300 Tick) (step Start (step (SelectMode ShortBreak) initial_state)))"
proof -
  have h: "lookup (durations initial_state) ShortBreak = 300"
    by (simp add: initial_fields default_lookup)
  have b: "(1::int) \<le> 300" "(300::int) \<le> 2 ^ 53"
    by simp_all
  have "(299::nat) < nat 300" by simp
  with countdown_exactness [OF h b] h b show ?thesis
    unfolding Let_def by fastforce
qed

lemma step_Tick_stopped: "\<not> (isRunning s \<and> 0 < timeLeft s) \<Longrightarrow> step Tick s = s"
  by (auto simp: step_handler tick_def)

lemma credits_stopped: "\<not> (isRunning s \<and> 0 < timeLeft s) \<Longrightarrow> credits (replicate n Tick) s = 0"
  by (induction n) (auto simp: step_Tick_stopped terminalTick_def)

lemma feasible_replicate_Tick: "feasible (replicate n Tick) s"
  by (induction n arbitrary: s) simp_all

lemma feasible_append: "feasible (xs @ ys) s = (feasible xs s \<and> feasible ys (exec xs s))"
  by (induction xs arbitrary: s) simp_all

lemma step_Tick_terminal:
  assumes "terminalTick Tick s"
  shows "step Tick s =
         s\<lparr>isRunning := False, isComplete := True,
           dailyTasks := map (creditTask (selectedTaskId s) (lookup (durations s) (mode s)))
                             (dailyTasks s),
           timeLeft := 0\<rparr>"
  using assms by (simp add: terminalTick_def step_handler tick_def tickUpdater_def)

lemma last_second_eq: "last_second = initial_state\<lparr>isRunning := True, timeLeft := 1\<rparr>"
proof -
  have start: "step Start initial_state = initial_state\<lparr>isRunning := True\<rparr>"
    by (simp add: step_handler handleStart_def initial_state_def)
  have "exec (replicate 1499 Tick) (initial_state\<lparr>isRunning := True\<rparr>) =
        initial_state\<lparr>isRunning := True\<rparr>\<lparr>timeLeft := 1\<rparr>"
    by (rule exec_counting) (simp_all add: initial_fields)
  with start show ?thesis
    by (simp add: last_second_def)
qed

lemma focus_run_eq:
  "exec focus_run initial_state =
   initial_state\<lparr>isComplete := True, timeLeft := 0,
     dailyTasks := map (creditTask ''learning'' 1500) DEFAULT_TASKS\<rparr>"
proof -
  have start: "step Start initial_state = initial_state\<lparr>isRunning := True\<rparr>"
    by (simp add: step_handler handleStart_def initial_state_def)
  have "exec (replicate 1500 Tick) (initial_state\<lparr>isRunning := True\<rparr>) =
        (initial_state\<lparr>isRunning := True\<rparr>)\<lparr>isRunning := False, isComplete := True,
           dailyTasks := map (creditTask (selectedTaskId (initial_state\<lparr>isRunning := True\<rparr>))
               (lookup (durations (initial_state\<lparr>isRunning := True\<rparr>)) (mode (initial_state\<lparr>isRunning := True\<rparr>))))
                             (dailyTasks (initial_state\<lparr>isRunning := True\<rparr>)),
           timeLeft := 0\<rparr>"
    by (rule exec_countdown) (simp_all add: initial_fields)
  with start show ?thesis
    by (simp add: focus_run_def initial_fields default_lookup)
qed




section \<open>Crediting the ledger\<close>


lemma last_second_terminal: "terminalTick Tick last_second"
  by (simp add: terminalTick_def last_second_eq)


lemma step_Start: "step Start s = s\<lparr>isRunning := True, isComplete := False\<rparr>"
  by (simp add: step_handler handleStart_def)

section \<open>Starting at zero\<close>

text \<open>
  Claim C9. A tick changes the state only when the timer is running with time left. So
  when Start is pressed with no time left (as after a completion without a reset), the
  timer is running, not complete, with 0 seconds left, and any number of ticks leaves
  that state as it is and credits nothing.
\<close>

theorem restart_at_zero_stalls:
  "(step Tick s \<noteq> s \<longrightarrow> isRunning s \<and> 0 < timeLeft s) \<and>
   (timeLeft s = 0 \<longrightarrow>
      (let s' = step Start s in
         isRunning s' \<and> \<not> isComplete s' \<and> timeLeft s' = 0 \<and>
         exec (replicate n Tick) s' = s' \<and> credits (replicate n Tick) s' = 0))"
proof (rule conjI; rule impI)
  assume "step Tick s \<noteq> s"
  then show "isRunning s \<and> 0 < timeLeft s"
    using step_Tick_stopped [of s] by blast
next
  assume z: "timeLeft s = 0"
  define s' where "s' = step Start s"
  have f: "isRunning s'" "\<not> isComplete s'" "timeLeft s' = 0"
    using z by (simp_all add: s'_def step_Start)
  then have stopped: "\<not> (isRunning s' \<and> 0 < timeLeft s')"
    by simp
  have "exec (replicate n Tick) s' = s'"
    unfolding exec_replicate_Tick using stopped by (rule tick_stopped)
  moreover have "credits (replicate n Tick) s' = 0"
    using stopped by (rule credits_stopped)
  ultimately show "let s' = step Start s in
         isRunning s' \<and> \<not> isComplete s' \<and> timeLeft s' = 0 \<and>
         exec (replicate n Tick) s' = s' \<and> credits (replicate n Tick) s' = 0"
    using f unfolding s'_def Let_def by simp
qed

lemma focus_run_fields:
  "timeLeft (exec focus_run initial_state) = 0" "isComplete (exec focus_run initial_state)"
  "\<not> isRunning (exec focus_run initial_state)" "mode (exec focus_run initial_state) = Focus"
  by (simp_all add: focus_run_eq initial_fields)

theorem restart_at_zero_stalls_witness:
  "timeLeft (exec focus_run initial_state) = 0 \<and>
   isComplete (exec focus_run initial_state) \<and>
   isRunning (step Start (exec focus_run initial_state)) \<and>
   \<not> isComplete (step Start (exec focus_run initial_state)) \<and>
   timeLeft (step Start (exec focus_run initial_state)) = 0 \<and>
   exec (replicate 60 Tick) (step Start (exec focus_run initial_state)) =
     step Start (exec focus_run initial_state) \<and>
   credits (replicate 60 Tick) (step Start (exec focus_run initial_state)) = 0"
  using restart_at_zero_stalls [of "exec focus_run initial_state" 60] focus_run_fields
  unfolding Let_def by simp

lemma feasible_focus_run: "feasible focus_run initial_state"
  by (simp add: focus_run_def feasible_replicate_Tick initial_fields)

section \<open>Starting while complete\<close>

text \<open>
  Claim C2 says that Start is ignored while the timer is complete. After a whole focus
  session the timer is complete and the Start button is enabled; pressing it changes
  the state.
\<close>

theorem start_while_complete_counterexample:
  "feasible focus_run initial_state \<and>
   isComplete (exec focus_run initial_state) \<and>
   enabled Start (exec focus_run initial_state) \<and>
   isRunning (step Start (exec focus_run initial_state)) \<and>
   \<not> isComplete (step Start (exec focus_run initial_state)) \<and>
   step Start (exec focus_run initial_state) \<noteq> exec focus_run initial_state"
proof -
  have "isRunning (step Start (exec focus_run initial_state))"
    "\<not> isComplete (step Start (exec focus_run initial_state))"
    by (simp_all add: step_Start)
  moreover from this(1) have
    "step Start (exec focus_run initial_state) \<noteq> exec focus_run initial_state"
    using focus_run_fields(3) by auto
  ultimately show ?thesis
    using feasible_focus_run focus_run_fields by simp
qed

text \<open>
  Claim C2, amended. In a complete state Start is accepted: it sets running, clears
  complete and leaves the time left, the mode and the ledger as they are.
\<close>

theorem start_while_complete:
  assumes "isComplete s"
  shows "step Start s = s\<lparr>isRunning := True, isComplete := False\<rparr> \<and>
         isRunning (step Start s) \<and> \<not> isComplete (step Start s) \<and>
         timeLeft (step Start s) = timeLeft s \<and> mode (step Start s) = mode s \<and>
         dailyTasks (step Start s) = dailyTasks s \<and> step Start s \<noteq> s"
proof -
  have "\<not> isComplete (step Start s)"
    by (simp add: step_Start)
  with assms have "step Start s \<noteq> s"
    by auto
  then show ?thesis
    by (simp add: step_Start)
qed

theorem start_while_complete_witness:
  "isComplete (exec focus_run initial_state) \<and>
   isRunning (step Start (exec focus_run initial_state)) \<and>
   \<not> isComplete (step Start (exec focus_run initial_state)) \<and>
   timeLeft (step Start (exec focus_run initial_state)) = 0 \<and>
   mode (step Start (exec focus_run initial_state)) = Focus"
  using start_while_complete [OF focus_run_fields(2)] focus_run_fields by simp


section \<open>Completion in a break mode\<close>


section \<open>Invariants of the reachable states\<close>

lemma table_ok_iff: "table_ok d = (\<forall>m. entry_ok (lookup d m))"
proof
  assume ok: "table_ok d"
  show "\<forall>m. entry_ok (lookup d m)"
  proof
    fix m
    from ok show "entry_ok (lookup d m)"
      by (cases m) (simp_all add: table_ok_def all_modes_def)
  qed
next
  assume "\<forall>m. entry_ok (lookup d m)"
  then show "table_ok d"
    by (simp add: table_ok_def all_modes_def)
qed

lemma lookup_assign: "lookup (assign d m v) m' = (if m' = m then v else lookup d m')"
  by (cases m; cases m') simp_all

lemma entry_ok_small:
  assumes "whole_minutes d" and "d \<le> 2 ^ 53"
  shows "entry_ok d"
proof -
  from assms have "roundDouble d = d"
    by (intro roundDouble_small) (simp_all add: whole_minutes_def)
  with assms(1) show ?thesis
    by (simp add: entry_ok_def whole_minutes_def)
qed

lemma entry_ok_clamp: "entry_ok (roundDouble (max 1 x * 60))"
proof -
  define z where "z = max 1 x * 60"
  have z: "60 \<le> z" "z mod 60 = 0"
    by (simp_all add: z_def max_def)
  have "60 \<le> roundDouble z"
    using z(1) by (rule roundDouble_ge) simp_all
  moreover have "roundDouble (roundDouble z) = roundDouble z"
    by (rule roundDouble_idem)
  moreover have "whole_minutes (roundDouble z)" if "roundDouble z < 2 ^ 53"
  proof -
    have "z < 2 ^ 53"
    proof (rule ccontr)
      assume "\<not> z < 2 ^ 53"
      then have "2 ^ 53 \<le> roundDouble z"
        by (intro roundDouble_ge) simp_all
      with that show False
        by simp
    qed
    with z(1) have "roundDouble z = z"
      by (intro roundDouble_small) simp_all
    with z show ?thesis
      by (simp add: whole_minutes_def)
  qed
  ultimately show ?thesis
    unfolding entry_ok_def z_def by blast
qed


lemma table_ok_default: "table_ok DEFAULT_DURATIONS"
  by (simp add: table_ok_def all_modes_def default_lookup entry_ok_small whole_minutes_def)

lemma table_ok_assign: "table_ok d \<Longrightarrow> entry_ok v \<Longrightarrow> table_ok (assign d m v)"
  by (simp add: table_ok_iff lookup_assign)

lemma tables_ok_step:
  assumes "tables_ok s"
  shows "tables_ok (step e s)"
proof (cases e)
  case Tick
  with assms show ?thesis
    by (simp add: step_handler tables_ok_def tick_def tickUpdater_def)
next
  case (EditDuration m v)
  with assms show ?thesis
    by (simp add: step_EditDuration tables_ok_def table_ok_assign entry_ok_clamp)
next
  case ResetDurations
  with assms show ?thesis
    by (simp add: step_handler tables_ok_def handleResetDurations_def table_ok_default)
qed (use assms in \<open>simp_all add: step_handler tables_ok_def handler_defs\<close>)

lemma timer_inv_step:
  assumes "tables_ok s" and "timer_inv s"
  shows "timer_inv (step e s)"
proof -
  have entry: "entry_ok (lookup (durations s) m)" "entry_ok (lookup (tempDurations s) m)" for m
    using assms(1) by (simp_all add: tables_ok_def table_ok_iff)
  then have pos: "0 \<le> lookup (durations s) m" "0 \<le> lookup (tempDurations s) m" for m
    unfolding entry_ok_def by (simp_all add: order_trans [of 0 60])
  show ?thesis
  proof (cases e)
    case Tick
    show ?thesis
    proof (cases "isRunning s \<and> 1 < timeLeft s")
      case True
      let ?D = "lookup (durations s) (mode s)"
      from assms(2) have "timeLeft s - 1 \<le> ?D"
        by (simp add: timer_inv_def)
      then have "roundDouble (timeLeft s - 1) \<le> roundDouble ?D"
        by (rule roundDouble_mono)
      moreover have "roundDouble ?D = ?D"
        using entry(1) [of "mode s"] by (simp add: entry_ok_def)
      moreover from True have "0 \<le> roundDouble (timeLeft s - 1)"
        by (intro roundDouble_ge) simp_all
      ultimately show ?thesis
        using True assms(2) by (simp add: Tick step_handler timer_inv_def tick_def tickUpdater_def)
    next
      case False
      with assms(2) show ?thesis
        by (auto simp: Tick step_handler timer_inv_def tick_def tickUpdater_def)
    qed
  next
    case (SelectMode m)
    with pos show ?thesis
      by (simp add: step_handler timer_inv_def handleModeChange_def)
  next
    case Reset
    with pos show ?thesis
      by (simp add: step_handler timer_inv_def handleReset_def)
  next
    case Save
    with pos show ?thesis
      by (simp add: step_handler timer_inv_def handleSaveDurations_def)
  qed (use assms(2) in \<open>simp_all add: step_handler timer_inv_def handler_defs\<close>)
qed

lemma initial_inv: "tables_ok initial_state" "timer_inv initial_state"
  by (simp_all add: tables_ok_def timer_inv_def initial_fields table_ok_default default_lookup)

lemma exec_inv:
  "tables_ok s \<Longrightarrow> timer_inv s \<Longrightarrow> tables_ok (exec es s) \<and> timer_inv (exec es s)"
  by (induction es arbitrary: s) (simp_all add: tables_ok_step timer_inv_step)

lemma reachable_inv: "tables_ok (exec es initial_state)" "timer_inv (exec es initial_state)"
  using exec_inv [OF initial_inv] by simp_all







lemma complete_only_by_terminal_tick:
  assumes "isComplete (step e s)" and "\<not> isComplete s"
  shows "terminalTick e s"
proof (cases e)
  case Tick
  with assms show ?thesis
    by (auto simp: step_handler terminalTick_def tick_def tickUpdater_def split: if_splits)
qed (use assms in \<open>simp_all add: step_handler handler_defs\<close>)

text \<open>
  Claim C6 (timer invariants). In every state reached from the initial state by any
  events the time left is between 0 and the active duration of the mode, and running and
  complete do not hold together; every event leads to a state where this holds again;
  an event makes the timer complete only when it is the tick that ends a countdown;
  reset and mode selection leave the timer not complete.
\<close>

theorem timer_invariants:
  "let s = exec es initial_state in
     0 \<le> timeLeft s \<and> timeLeft s \<le> lookup (durations s) (mode s) \<and>
     \<not> (isRunning s \<and> isComplete s) \<and>
     timer_inv s \<and> timer_inv (step e s) \<and>
     (isComplete (step e s) \<and> \<not> isComplete s \<longrightarrow> terminalTick e s) \<and>
     \<not> isComplete (step Reset s) \<and> \<not> isComplete (step (SelectMode m) s)"
proof -
  define s where "s = exec es initial_state"
  have inv: "timer_inv s" and tabs: "tables_ok s"
    unfolding s_def by (rule reachable_inv)+
  from tabs inv have "timer_inv (step e s)"
    by (rule timer_inv_step)
  moreover have "\<not> isComplete (step Reset s)" "\<not> isComplete (step (SelectMode m) s)"
    by (simp_all add: step_handler handleReset_def handleModeChange_def)
  moreover have "isComplete (step e s) \<and> \<not> isComplete s \<longrightarrow> terminalTick e s"
    using complete_only_by_terminal_tick by blast
  moreover from inv have "0 \<le> timeLeft s" "timeLeft s \<le> lookup (durations s) (mode s)"
    "\<not> (isRunning s \<and> isComplete s)"
    by (simp_all add: timer_inv_def)
  ultimately show ?thesis
    using inv unfolding s_def [symmetric] Let_def by blast
qed

theorem timer_invariants_witness:
  "timer_inv last_second \<and> timer_inv (step Tick last_second) \<and>
   isRunning last_second \<and> \<not> isComplete last_second \<and>
   isComplete (step Tick last_second) \<and> \<not> isRunning (step Tick last_second) \<and>
   timeLeft (step Tick last_second) = 0 \<and> terminalTick Tick last_second"
proof -
  have c: "isComplete (step Tick last_second)" "\<not> isComplete last_second"
    "isRunning last_second" "\<not> isRunning (step Tick last_second)"
    "timeLeft (step Tick last_second) = 0"
    by (simp_all add: step_Tick_terminal [OF last_second_terminal])
      (simp_all add: last_second_eq initial_fields)
  from timer_invariants [of "Start # replicate 1499 Tick" Tick Focus]
  have "timer_inv last_second" "timer_inv (step Tick last_second)"
    "isComplete (step Tick last_second) \<and> \<not> isComplete last_second
       \<longrightarrow> terminalTick Tick last_second"
    unfolding Let_def last_second_def [symmetric] by blast+
  with c show ?thesis
    by blast
qed



section \<open>One credit per countdown\<close>

lemma tasks_frame:
  assumes "e \<noteq> ResetTasks" and "\<not> terminalTick e s"
  shows "dailyTasks (step e s) = dailyTasks s"
proof (cases e)
  case Tick
  with assms(2) show ?thesis
    by (auto simp: step_handler terminalTick_def tick_def tickUpdater_def)
qed (use assms(1) in \<open>simp_all add: step_handler handler_defs\<close>)

lemma timeLeft_frame:
  assumes "\<not> isReload e" and "timeLeft s \<le> 0"
  shows "timeLeft (step e s) \<le> 0"
proof (cases e)
  case Tick
  with assms(2) show ?thesis
    by (simp add: step_handler tick_def)
qed (use assms in \<open>simp_all add: step_handler handler_defs\<close>)

lemma credits_bound:
  "credits es s \<le> (if timeLeft s \<le> 0 then 0 else 1) + length (filter isReload es)"
proof (induction es arbitrary: s)
  case Nil
  show ?case by simp
next
  case (Cons e es)
  note IH = Cons.IH [of "step e s"]
  show ?case
  proof (cases "terminalTick e s")
    case True
    then have "timeLeft (step e s) = 0" "0 < timeLeft s" "\<not> isReload e"
      by (simp_all add: terminalTick_def step_Tick_terminal)
    with IH True show ?thesis
      by simp
  next
    case False
    show ?thesis
    proof (cases "isReload e")
      case True
      with IH False show ?thesis
        by (simp split: if_splits)
    next
      case nr: False
      show ?thesis
      proof (cases "timeLeft s \<le> 0")
        case True
        with nr have "timeLeft (step e s) \<le> 0"
          by (intro timeLeft_frame)
        with IH False nr True show ?thesis
          by simp
      next
        case False
        with IH \<open>\<not> terminalTick e s\<close> nr show ?thesis
          by (simp split: if_splits)
      qed
    qed
  qed
qed

lemma credits_append: "credits (xs @ ys) s = credits xs s + credits ys (exec xs s)"
  by (induction xs arbitrary: s) simp_all

lemma credits_counting:
  "isRunning s \<Longrightarrow> timeLeft s = int n + k \<Longrightarrow> 1 \<le> k \<Longrightarrow> timeLeft s \<le> 2 ^ 53 \<Longrightarrow>
   credits (replicate n Tick) s = 0"
proof (induction n arbitrary: s)
  case 0
  show ?case by simp
next
  case (Suc n)
  let ?t = "s\<lparr>timeLeft := timeLeft s - 1\<rparr>"
  from Suc.prems have "tick s = ?t"
    by (intro tick_counting) simp_all
  then have t: "step Tick s = ?t"
    by (simp add: step_handler)
  from Suc.prems have nt: "\<not> terminalTick Tick s"
    by (simp add: terminalTick_def)
  from Suc.prems have "credits (replicate n Tick) ?t = 0"
    by (intro Suc.IH) simp_all
  with t nt show ?case
    by simp
qed

lemma credits_focus_run: "credits focus_run initial_state = 1"
proof -
  have "replicate (1499 + 1) Tick = replicate 1499 Tick @ replicate 1 Tick"
    by (rule replicate_add)
  then have split: "focus_run = (Start # replicate 1499 Tick) @ [Tick]"
    unfolding focus_run_def by simp
  have "credits (replicate 1499 Tick) (step Start initial_state) = 0"
    by (rule credits_counting [where k = 1]) (simp_all add: step_Start initial_fields)
  then have "credits (Start # replicate 1499 Tick) initial_state = 0"
    by (simp add: terminalTick_def)
  moreover have "credits [Tick] last_second = 1"
    using last_second_terminal by simp
  ultimately show ?thesis
    unfolding split credits_append last_second_def [symmetric] by simp
qed

text \<open>
  Claim C4 (exactly-once credit). No event other than the tick that ends a countdown
  changes the ledger, the reset of the ledger itself apart: not start, pause, reset, mode
  selection, a save or any other tick. The tick that ends a countdown applies the credit
  map once and leaves the timer stopped at 0, where further ticks credit nothing. Along
  any run the number of credits is at most one more than the number of events that
  reload the time left (reset, mode selection, save), and at most that number when the
  run starts with no time left: each loading of the timer is credited at most once.
\<close>

theorem exactly_once_credit:
  "(e \<noteq> ResetTasks \<and> \<not> terminalTick e s \<longrightarrow> dailyTasks (step e s) = dailyTasks s) \<and>
   (terminalTick e s \<longrightarrow>
      dailyTasks (step e s) =
        map (creditTask (selectedTaskId s) (lookup (durations s) (mode s))) (dailyTasks s) \<and>
      timeLeft (step e s) = 0 \<and> \<not> isRunning (step e s) \<and>
      credits (replicate n Tick) (step e s) = 0) \<and>
   credits es s \<le> 1 + length (filter isReload es) \<and>
   (timeLeft s \<le> 0 \<longrightarrow> credits es s \<le> length (filter isReload es))"
proof (intro conjI impI)
  assume "e \<noteq> ResetTasks \<and> \<not> terminalTick e s"
  then show "dailyTasks (step e s) = dailyTasks s"
    using tasks_frame by blast
next
  assume t: "terminalTick e s"
  then have e: "e = Tick"
    by (simp add: terminalTick_def)
  from t show "dailyTasks (step e s) =
        map (creditTask (selectedTaskId s) (lookup (durations s) (mode s))) (dailyTasks s)"
    and z: "timeLeft (step e s) = 0" and r: "\<not> isRunning (step e s)"
    unfolding e by (simp_all add: step_Tick_terminal)
  from r show "credits (replicate n Tick) (step e s) = 0"
    by (intro credits_stopped) simp
next
  show "credits es s \<le> 1 + length (filter isReload es)"
    using credits_bound [of es s] by (simp split: if_splits)
next
  assume "timeLeft s \<le> 0"
  then show "credits es s \<le> length (filter isReload es)"
    using credits_bound [of es s] by simp
qed

theorem exactly_once_credit_witness:
  "terminalTick Tick last_second \<and>
   timeLeft (step Tick last_second) = 0 \<and>
   credits (replicate 60 Tick) (step Tick last_second) = 0 \<and>
   \<not> terminalTick Reset (exec focus_run initial_state) \<and>
   dailyTasks (step Reset (exec focus_run initial_state)) = dailyTasks (exec focus_run initial_state) \<and>
   credits focus_run initial_state = 1 \<and>
   credits focus_run initial_state \<le> 1 + length (filter isReload focus_run)"
proof -
  have r: "\<not> terminalTick Reset (exec focus_run initial_state)" "Reset \<noteq> ResetTasks"
    by (simp_all add: terminalTick_def)
  from exactly_once_credit [of Tick last_second 60] last_second_terminal
  have "timeLeft (step Tick last_second) = 0"
    "credits (replicate 60 Tick) (step Tick last_second) = 0"
    by blast+
  moreover from exactly_once_credit [of Reset "exec focus_run initial_state"] r
  have "dailyTasks (step Reset (exec focus_run initial_state)) =
        dailyTasks (exec focus_run initial_state)"
    by blast
  moreover from exactly_once_credit [of _ initial_state _ focus_run]
  have "credits focus_run initial_state \<le> 1 + length (filter isReload focus_run)"
    by blast
  ultimately show ?thesis
    using last_second_terminal r(1) credits_focus_run by blast
qed

section \<open>Settings\<close>

lemma parsedMinutes_eq: "parsedMinutes v = (case parseInt v of None \<Rightarrow> 0 | Some n \<Rightarrow> n)"
  by (simp add: parsedMinutes_def split: option.splits)

text \<open>
  Claim C7 says that an edit stores \<open>max(1, minutes) * 60\<close> for every input string. With
  the settings panel open, the input \<^verbatim>\<open>600479950316067\<close> is read as that number of
  minutes, whose product by 60 is 36028797018964020; the entry stored is
  36028797018964016.
\<close>

theorem duration_edit_clamp_counterexample:
  "enabled (EditDuration Focus (js ''600479950316067'')) (step ToggleSettings initial_state) \<and>
   parseInt (js ''600479950316067'') = Some 600479950316067 \<and>
   max 1 600479950316067 * 60 = (36028797018964020::int) \<and>
   lookup (tempDurations (step (EditDuration Focus (js ''600479950316067''))
     (step ToggleSettings initial_state))) Focus = 36028797018964016"
proof -
  have "enabled (EditDuration Focus (js ''600479950316067'')) (step ToggleSettings initial_state)"
    by (simp add: step_handler toggleSettings_def initial_fields)
  moreover have "lookup (tempDurations (step (EditDuration Focus (js ''600479950316067''))
     (step ToggleSettings initial_state))) Focus = 36028797018964016"
    unfolding step_EditDuration
    by (simp add: parsedMinutes_examples roundDouble_examples)
  ultimately show ?thesis
    using parseInt_examples(5) by simp
qed

text \<open>
  Claim C7, amended (duration edit clamp in double arithmetic). For every mode and
  every input string, editing stores in the pending table at that mode the double
  nearest to \<open>max(1, minutes) * 60\<close> (\<^verbatim>\<open>Infinity\<close> beyond the range of the doubles), where
  the minutes are what \<^verbatim>\<open>parseInt\<close> reads and 0 when it reads no number. The entry is
  exactly \<open>max(1, minutes) * 60\<close> whenever this product is at most \<open>2^53\<close>, it is at
  least 60, and unless it is \<^verbatim>\<open>Infinity\<close> it differs from the product by at most half the
  gap between the doubles there. The other entries and the rest of the state are
  unchanged. The inputs \<^verbatim>\<open>-5\<close> and \<^verbatim>\<open>abc\<close> both store 60 seconds.
\<close>

theorem duration_edit_clamp:
  "(let s' = step (EditDuration m v) s;
        minutes = (case parseInt v of None \<Rightarrow> 0 | Some n \<Rightarrow> n);
        stored = lookup (tempDurations s') m
    in stored = roundDouble (max 1 minutes * 60) \<and>
       (max 1 minutes * 60 \<le> 2 ^ 53 \<longrightarrow> stored = max 1 minutes * 60) \<and>
       60 \<le> stored \<and>
       (stored \<noteq> Infinity \<longrightarrow> 2 * \<bar>stored - max 1 minutes * 60\<bar> \<le> ulp (max 1 minutes * 60)) \<and>
       (\<forall>m'. m' \<noteq> m \<longrightarrow> lookup (tempDurations s') m' = lookup (tempDurations s) m') \<and>
       s' = s\<lparr>tempDurations := tempDurations s'\<rparr>) \<and>
   parseInt (js ''-5'') = Some (- 5) \<and> parseInt (js ''abc'') = None \<and>
   lookup (tempDurations (step (EditDuration m (js ''-5'')) s)) m = 60 \<and>
   lookup (tempDurations (step (EditDuration m (js ''abc'')) s)) m = 60"
proof -
  define z where "z = max 1 (parsedMinutes v) * 60"
  have z: "60 \<le> z"
    by (simp add: z_def max_def)
  have ge: "60 \<le> roundDouble z"
    using z by (rule roundDouble_ge) simp_all
  have exact: "roundDouble z = z" if "z \<le> 2 ^ 53"
    using z that by (intro roundDouble_small) simp_all
  have near: "2 * \<bar>roundDouble z - z\<bar> \<le> ulp z" if "roundDouble z \<noteq> Infinity"
  proof -
    have "0 < Infinity"
      by (simp add: Infinity_def)
    with ge have "roundDouble z \<noteq> - Infinity"
      by simp
    with that have "2 * \<bar>roundDouble z - z\<bar> \<le> ulp \<bar>z\<bar>"
      by (rule roundDouble_near)
    with z show ?thesis
      by simp
  qed
  have "let s' = step (EditDuration m v) s;
        minutes = (case parseInt v of None \<Rightarrow> 0 | Some n \<Rightarrow> n);
        stored = lookup (tempDurations s') m
    in stored = roundDouble (max 1 minutes * 60) \<and>
       (max 1 minutes * 60 \<le> 2 ^ 53 \<longrightarrow> stored = max 1 minutes * 60) \<and>
       60 \<le> stored \<and>
       (stored \<noteq> Infinity \<longrightarrow> 2 * \<bar>stored - max 1 minutes * 60\<bar> \<le> ulp (max 1 minutes * 60)) \<and>
       (\<forall>m'. m' \<noteq> m \<longrightarrow> lookup (tempDurations s') m' = lookup (tempDurations s) m') \<and>
       s' = s\<lparr>tempDurations := tempDurations s'\<rparr>"
    unfolding Let_def step_EditDuration parsedMinutes_eq [symmetric] z_def [symmetric]
    using ge exact near by (simp add: lookup_assign)
  moreover have "lookup (tempDurations (step (EditDuration m (js ''-5'')) s)) m = 60"
    "lookup (tempDurations (step (EditDuration m (js ''abc'')) s)) m = 60"
    unfolding step_EditDuration
    by (simp_all add: lookup_assign parsedMinutes_examples roundDouble_small)
  ultimately show ?thesis
    using parseInt_examples(1,2) by blast
qed

theorem duration_edit_clamp_witness:
  "parseInt (js ''45'') = Some 45 \<and> max 1 45 * 60 \<le> (2::int) ^ 53 \<and>
   lookup (tempDurations (step (EditDuration Focus (js ''45'')) initial_state)) Focus = 2700 \<and>
   lookup (tempDurations (step (EditDuration Focus (js ''45'')) initial_state)) ShortBreak = 300 \<and>
   lookup (tempDurations (step (EditDuration LongBreak (js ''-5'')) initial_state)) LongBreak = 60"
proof -
  have small: "max 1 45 * 60 \<le> (2::int) ^ 53"
    by simp
  from duration_edit_clamp [of Focus "js ''45''" initial_state]
  have a: "max 1 (case parseInt (js ''45'') of None \<Rightarrow> 0 | Some n \<Rightarrow> n) * 60 \<le> 2 ^ 53 \<longrightarrow>
           lookup (tempDurations (step (EditDuration Focus (js ''45'')) initial_state)) Focus =
           max 1 (case parseInt (js ''45'') of None \<Rightarrow> 0 | Some n \<Rightarrow> n) * 60"
    and b: "\<forall>m'. m' \<noteq> Focus \<longrightarrow>
           lookup (tempDurations (step (EditDuration Focus (js ''45'')) initial_state)) m' =
           lookup (tempDurations initial_state) m'"
    unfolding Let_def by blast+
  from b have "lookup (tempDurations (step (EditDuration Focus (js ''45'')) initial_state)) ShortBreak =
               lookup (tempDurations initial_state) ShortBreak"
    by blast
  then have c: "lookup (tempDurations (step (EditDuration Focus (js ''45'')) initial_state)) ShortBreak = 300"
    by (simp add: initial_fields default_lookup)
  from duration_edit_clamp [of LongBreak _ initial_state]
  have d: "lookup (tempDurations (step (EditDuration LongBreak (js ''-5'')) initial_state)) LongBreak = 60"
    by blast
  from a have "lookup (tempDurations (step (EditDuration Focus (js ''45'')) initial_state)) Focus = 2700"
    unfolding parseInt_examples by simp
  with c d small parseInt_examples(3) show ?thesis
    by blast
qed

lemma edits_frame:
  "\<exists>T. exec (map (\<lambda>(m, v). EditDuration m v) edits) s = s\<lparr>tempDurations := T\<rparr>"
proof (induction edits arbitrary: s)
  case Nil
  show ?case
    by (intro exI [of _ "tempDurations s"]) simp
next
  case (Cons x xs)
  obtain m v where x: "x = (m, v)"
    by (cases x)
  define s' where
    "s' = s\<lparr>tempDurations := assign (tempDurations s) m (roundDouble (max 1 (parsedMinutes v) * 60))\<rparr>"
  from Cons.IH [of s'] obtain T
    where "exec (map (\<lambda>(m, v). EditDuration m v) xs) s' = s'\<lparr>tempDurations := T\<rparr>"
    by blast
  then have "exec (map (\<lambda>(m, v). EditDuration m v) (x # xs)) s = s\<lparr>tempDurations := T\<rparr>"
    by (simp add: x step_EditDuration s'_def)
  then show ?case
    by blast
qed

text \<open>
  Claim C8 (save commits, discard does not). After any sequence of edits, the reset of
  the settings panel changes the pending table only: the active table, the mode, the time
  left, the running and complete flags and the ledger are as before the edits. Save
  copies the pending table into the active one, sets the time left to the new active
  duration of the current mode, clears running and complete and keeps the mode.
\<close>

theorem save_commits_discard_does_not:
  "let p = exec (map (\<lambda>(m, v). EditDuration m v) edits) s;
       d = step ResetDurations p;
       c = step Save p
   in d = p\<lparr>tempDurations := DEFAULT_DURATIONS\<rparr> \<and>
      durations d = durations s \<and> mode d = mode s \<and> timeLeft d = timeLeft s \<and>
      isRunning d = isRunning s \<and> isComplete d = isComplete s \<and>
      dailyTasks d = dailyTasks s \<and>
      durations c = tempDurations p \<and> tempDurations c = tempDurations p \<and>
      timeLeft c = lookup (tempDurations p) (mode s) \<and>
      timeLeft c = lookup (durations c) (mode c) \<and>
      \<not> isRunning c \<and> \<not> isComplete c \<and> mode c = mode s \<and> dailyTasks c = dailyTasks s"
proof -
  obtain T where p: "exec (map (\<lambda>(m, v). EditDuration m v) edits) s = s\<lparr>tempDurations := T\<rparr>"
    using edits_frame by blast
  show ?thesis
    unfolding Let_def p
    by (simp add: step_handler handleResetDurations_def handleSaveDurations_def)
qed

theorem save_commits_discard_does_not_witness:
  "timeLeft (step ResetDurations (exec [EditDuration Focus (js ''45'')] last_second)) = 1 \<and>
   isRunning (step ResetDurations (exec [EditDuration Focus (js ''45'')] last_second)) \<and>
   durations (step ResetDurations (exec [EditDuration Focus (js ''45'')] last_second)) = DEFAULT_DURATIONS \<and>
   timeLeft (step Save (exec [EditDuration Focus (js ''45'')] last_second)) = 2700 \<and>
   \<not> isRunning (step Save (exec [EditDuration Focus (js ''45'')] last_second)) \<and>
   lookup (durations (step Save (exec [EditDuration Focus (js ''45'')] last_second))) Focus = 2700"
proof -
  define p where "p = exec [EditDuration Focus (js ''45'')] last_second"
  have t: "tempDurations p = DEFAULT_DURATIONS\<lparr>focus := 2700\<rparr>"
    by (simp add: p_def step_EditDuration parsedMinutes_examples roundDouble_small last_second_eq
        initial_fields)
  have l: "timeLeft last_second = 1" "isRunning last_second" "mode last_second = Focus"
    "durations last_second = DEFAULT_DURATIONS"
    by (simp_all add: last_second_eq initial_fields)
  have m: "exec (map (\<lambda>(m, v). EditDuration m v) [(Focus, js ''45'')]) last_second = p"
    by (simp add: p_def)
  from save_commits_discard_does_not [of "[(Focus, js ''45'')]" last_second]
  have "timeLeft (step ResetDurations p) = timeLeft last_second"
    "isRunning (step ResetDurations p) = isRunning last_second"
    "durations (step ResetDurations p) = durations last_second"
    "timeLeft (step Save p) = lookup (tempDurations p) (mode last_second)"
    "\<not> isRunning (step Save p)"
    "durations (step Save p) = tempDurations p"
    unfolding Let_def m by blast+
  then show ?thesis
    unfolding p_def [symmetric] t l using l(2) by simp
qed

section \<open>Durations above \<open>2^53\<close> do not count down\<close>

lemma roundPos_le_Infinity: "roundPos x \<le> Infinity"
  by (simp add: roundPos_def)

lemma double_ulp_dvd:
  assumes "roundDouble E = E" and "0 \<le> E"
  shows "ulp E dvd E"
proof (cases "rne (ulp E) E \<le> Infinity")
  case True
  with assms have "E = rne (ulp E) E"
    by (simp add: roundDouble_def roundPos_def)
  then show ?thesis
    using rne_multiple [of "ulp E" E] by simp
next
  case False
  with assms have E: "E = Infinity"
    by (simp add: roundDouble_def roundPos_def)
  have "(2::int) ^ 53 * 2 ^ 971 = 2 ^ (53 + 971)"
    by (rule power_add [symmetric])
  then have "Infinity \<le> 2 ^ 53 * 2 ^ 971"
    unfolding Infinity_def by simp
  moreover have "2 ^ 971 dvd Infinity"
    unfolding Infinity_def by (rule le_imp_power_dvd) simp
  ultimately show ?thesis
    unfolding E by (intro expo_dvd)
qed

lemma rne_pred:
  assumes "2 \<le> u" and "u dvd E" and "u = 2 \<longrightarrow> 4 dvd E"
  shows "rne u (E - 1) = E"
proof -
  from assms(2) obtain k where E: "E = u * k"
    by (rule dvdE)
  have split: "E - 1 = (u - 1) + u * (k - 1)"
    unfolding E by (simp add: algebra_simps)
  have q: "(E - 1) div u = k - 1"
    unfolding split using assms(1) by (simp add: div_pos_pos_trivial)
  have "(u - 1 + u * (k - 1)) mod u = (u - 1) mod u"
    by (rule mod_mult_self2)
  moreover have "(u - 1) mod u = u - 1"
    using assms(1) by (intro mod_pos_pos_trivial) simp_all
  ultimately have r: "(E - 1) mod u = u - 1"
    unfolding split by simp
  have odd: "odd (k - 1)" if "u = 2"
  proof -
    from that assms(3) E have "4 dvd 2 * k"
      by simp
    then have "even k"
      by presburger
    then show ?thesis
      by simp
  qed
  have "\<not> (2 * (u - 1) < u \<or> (2 * (u - 1) = u \<and> even (k - 1)))"
    using assms(1) odd by auto
  then have "rne u (E - 1) = (k - 1 + 1) * u"
    unfolding rne_def Let_def q r by simp
  then show ?thesis
    unfolding E by (simp add: mult.commute)
qed

lemma roundDouble_pred_stuck:
  assumes "roundDouble E = E" and "2 ^ 53 < E" and "4 dvd E"
  shows "roundDouble (E - 1) = E"
proof -
  have pos: "0 \<le> E" "0 \<le> E - 1"
    using assms(2) by simp_all
  have "\<not> E - 1 < 2 ^ 53 * 2 ^ 0"
    using assms(2) by simp
  then have "\<not> expo (E - 1) \<le> 0"
    using expo_le_iff [of "E - 1" 0] by blast
  then have e1: "1 \<le> expo (E - 1)"
    by simp
  then have "(2::int) ^ 1 \<le> 2 ^ expo (E - 1)"
    by (intro power_increasing) simp_all
  then have u2: "2 \<le> ulp (E - 1)"
    by (simp add: ulp_def)
  have "expo (E - 1) \<le> expo E"
    by (rule expo_mono) simp
  then have "ulp (E - 1) dvd ulp E"
    unfolding ulp_def by (rule le_imp_power_dvd)
  then have dvd: "ulp (E - 1) dvd E"
    using double_ulp_dvd [OF assms(1) pos(1)] by (rule dvd_trans)
  have "rne (ulp (E - 1)) (E - 1) = E"
    using u2 dvd assms(3) by (intro rne_pred) simp_all
  moreover have "E \<le> Infinity"
    using assms(1) pos(1) roundPos_le_Infinity [of E] by (simp add: roundDouble_def)
  ultimately show ?thesis
    using pos(2) by (simp add: roundDouble_def roundPos_def)
qed

lemma stored_dvd4:
  assumes "4 dvd z" and "0 \<le> z" and "2 ^ 53 < roundDouble z"
  shows "4 dvd roundDouble z"
proof -
  have rd: "roundDouble z = min Infinity (rne (ulp z) z)"
    using assms(2) by (simp add: roundDouble_def roundPos_def)
  have inf4: "4 dvd Infinity"
  proof -
    have "(2::int) ^ 2 dvd 2 ^ 1024"
      by (rule le_imp_power_dvd) simp
    then show ?thesis
      by (simp add: Infinity_def)
  qed
  have "4 dvd rne (ulp z) z"
  proof (cases "expo z \<le> 1")
    case True
    then have "(2::int) ^ expo z dvd 2 ^ 2"
      by (intro le_imp_power_dvd) simp
    then have "ulp z dvd 4"
      by (simp add: ulp_def)
    then have "ulp z dvd z"
      using assms(1) by (rule dvd_trans)
    then have "rne (ulp z) z = z"
      by (intro rne_dvd ulp_pos)
    with assms(1) show ?thesis
      by simp
  next
    case False
    then have "(2::int) ^ 2 dvd 2 ^ expo z"
      by (intro le_imp_power_dvd) simp
    then have "4 dvd ulp z"
      by (simp add: ulp_def)
    then show ?thesis
      using rne_multiple [of "ulp z" z] by (rule dvd_trans)
  qed
  with inf4 show ?thesis
    unfolding rd by (simp add: min_def)
qed

lemma sticks_clamp: "sticks (roundDouble (max 1 x * 60))"
proof -
  define z where "z = max 1 x * 60"
  have z: "0 \<le> z" "4 dvd z"
    by (simp_all add: z_def max_def)
  have "roundDouble (roundDouble z - 1) = roundDouble z" if "2 ^ 53 < roundDouble z"
    using roundDouble_idem that
  proof (rule roundDouble_pred_stuck)
    from z that show "4 dvd roundDouble z"
      by (intro stored_dvd4)
  qed
  then show ?thesis
    unfolding sticks_def z_def by blast
qed

lemma sticks_small: "d \<le> 2 ^ 53 \<Longrightarrow> sticks d"
  by (simp add: sticks_def)

lemma sticky_tables_iff:
  "list_all (\<lambda>m. sticks (lookup (durations s) m) \<and> sticks (lookup (tempDurations s) m)) all_modes
   \<longleftrightarrow> (\<forall>m. sticks (lookup (durations s) m) \<and> sticks (lookup (tempDurations s) m))"
proof
  assume ok: "list_all (\<lambda>m. sticks (lookup (durations s) m) \<and> sticks (lookup (tempDurations s) m))
    all_modes"
  show "\<forall>m. sticks (lookup (durations s) m) \<and> sticks (lookup (tempDurations s) m)"
  proof
    fix m
    from ok show "sticks (lookup (durations s) m) \<and> sticks (lookup (tempDurations s) m)"
      by (cases m) (simp_all add: all_modes_def)
  qed
next
  assume "\<forall>m. sticks (lookup (durations s) m) \<and> sticks (lookup (tempDurations s) m)"
  then show "list_all (\<lambda>m. sticks (lookup (durations s) m) \<and> sticks (lookup (tempDurations s) m))
    all_modes"
    by (simp add: all_modes_def)
qed

lemma sticky_invI:
  assumes "\<And>m. sticks (lookup (durations s) m)" and "\<And>m. sticks (lookup (tempDurations s) m)"
    and "2 ^ 53 < lookup (durations s) (mode s) \<Longrightarrow> timeLeft s = lookup (durations s) (mode s)"
  shows "sticky_inv s"
  unfolding sticky_inv_def sticky_tables_iff using assms by blast

lemma sticky_inv_step:
  assumes "sticky_inv s"
  shows "sticky_inv (step e s)"
proof -
  from assms have tabs: "sticks (lookup (durations s) m)" "sticks (lookup (tempDurations s) m)" for m
    unfolding sticky_inv_def sticky_tables_iff by blast+
  from assms have stuck:
    "2 ^ 53 < lookup (durations s) (mode s) \<Longrightarrow> timeLeft s = lookup (durations s) (mode s)"
    unfolding sticky_inv_def by blast
  show ?thesis
  proof (cases e)
    case Tick
    let ?D = "lookup (durations s) (mode s)"
    have same: "durations (tick s) = durations s" "tempDurations (tick s) = tempDurations s"
      "mode (tick s) = mode s"
      by (simp_all add: tick_def tickUpdater_def)
    have "timeLeft (tick s) = ?D" if big: "2 ^ 53 < ?D"
    proof (cases "isRunning s")
      case True
      from big have t: "timeLeft s = ?D"
        by (rule stuck)
      from tabs(1) [of "mode s"] big have "roundDouble (?D - 1) = ?D"
        by (simp add: sticks_def)
      with True t big show ?thesis
        by (simp add: tick_def tickUpdater_def)
    next
      case False
      with stuck [OF big] show ?thesis
        by (simp add: tick_def)
    qed
    then show ?thesis
      unfolding Tick step_handler handler.simps
      by (intro sticky_invI) (simp_all only: same tabs)
  next
    case (EditDuration m v)
    show ?thesis
      unfolding EditDuration step_EditDuration
      by (intro sticky_invI) (use tabs stuck in \<open>simp_all add: lookup_assign sticks_clamp\<close>)
  next
    case ResetDurations
    have "sticks (lookup DEFAULT_DURATIONS m)" for m
      by (cases m) (simp_all add: default_lookup sticks_small)
    then show ?thesis
      unfolding ResetDurations step_handler handler.simps handleResetDurations_def
      by (intro sticky_invI) (use tabs stuck in simp_all)
  next
    case Start
    show ?thesis
      unfolding Start step_handler handler.simps handleStart_def
      by (intro sticky_invI) (use tabs stuck in simp_all)
  next
    case Pause
    show ?thesis
      unfolding Pause step_handler handler.simps handlePause_def
      by (intro sticky_invI) (use tabs stuck in simp_all)
  next
    case Reset
    show ?thesis
      unfolding Reset step_handler handler.simps handleReset_def
      by (intro sticky_invI) (use tabs in simp_all)
  next
    case (SelectMode m)
    show ?thesis
      unfolding SelectMode step_handler handler.simps handleModeChange_def
      by (intro sticky_invI) (use tabs in simp_all)
  next
    case Save
    show ?thesis
      unfolding Save step_handler handler.simps handleSaveDurations_def
      by (intro sticky_invI) (use tabs in simp_all)
  next
    case ToggleSettings
    show ?thesis
      unfolding ToggleSettings step_handler handler.simps toggleSettings_def
      by (intro sticky_invI) (use tabs stuck in simp_all)
  next
    case (SelectTask i)
    show ?thesis
      unfolding SelectTask step_handler handler.simps selectTask_def
      by (intro sticky_invI) (use tabs stuck in simp_all)
  next
    case ResetTasks
    show ?thesis
      unfolding ResetTasks step_handler handler.simps handleResetDailyTasks_def
      by (intro sticky_invI) (use tabs stuck in simp_all)
  qed
qed

lemma sticky_inv_initial: "sticky_inv initial_state"
  by (simp add: sticky_inv_def all_modes_def initial_fields default_lookup sticks_small)

lemma sticky_inv_exec: "sticky_inv s \<Longrightarrow> sticky_inv (exec es s)"
  by (induction es arbitrary: s) (simp_all add: sticky_inv_step)

lemma terminal_tick_exact:
  assumes "terminalTick Tick (exec es initial_state)"
  shows "lookup (durations (exec es initial_state)) (mode (exec es initial_state)) \<le> 2 ^ 53"
proof (rule ccontr)
  let ?s = "exec es initial_state"
  assume "\<not> lookup (durations ?s) (mode ?s) \<le> 2 ^ 53"
  then have big: "2 ^ 53 < lookup (durations ?s) (mode ?s)"
    by simp
  have "sticky_inv ?s"
    using sticky_inv_initial by (rule sticky_inv_exec)
  with big have "timeLeft ?s = lookup (durations ?s) (mode ?s)"
    by (simp add: sticky_inv_def)
  with big assms show False
    by (simp add: terminalTick_def)
qed

end
